theory Spec2Isabelle
  imports Main "HOL-Library.Word" "HOL-Library.Signed_Division" "HOL-Library.Multiset"
    "HOL-Library.Char_ord" "HOL-Library.List_Lexorder"
begin

unbundle bit_operations_syntax

section \<open>The cluster component of internal/database/cluster.go\<close>

subsection \<open>Data model\<close>

text \<open>
  Go's \<open>int\<close> is 64 bits wide on the platforms the Dockerfile builds for; a \<open>rune\<close> is an
  \<open>int32\<close>; \<open>LastSeen\<close> is an \<open>int64\<close> holding Unix seconds.
\<close>

type_synonym rune = "32 word"
type_synonym goint = "64 word"
type_synonym int64 = "64 word"

text \<open>
  \<open>type Node struct\<close>. The status is a free string in the source
  (\<open>active\<close>, \<open>inactive\<close>, \<open>joining\<close>, \<open>leaving\<close> by its comment), and stays one here.
\<close>

record Node =
  ID :: string
  Address :: string
  Port :: string
  Status :: string
  LastSeen :: int64

text \<open>The two fields of \<open>config.Config\<close> that the cluster reads.\<close>

record Config =
  ClusterPort :: string
  ReplicationFactor :: int

text \<open>
  \<open>type Cluster struct\<close>. The registry \<open>nodes\<close> is a Go map from node id to \<open>*Node\<close>;
  every function below reaches a record through the registry key it is stored under, so
  the record stands for the struct behind the pointer. \<open>selfNode\<close> is read only through
  its \<open>ID\<close>, which no function writes.
\<close>

record Cluster =
  selfNode :: Node
  nodes :: "string \<rightharpoonup> Node"
  config :: Config

text \<open>
  \<open>NewCluster\<close>; the id that \<open>generateNodeID\<close> draws from the clock and the random
  generator is the parameter \<open>nid\<close>. \<open>LastSeen\<close> is left at Go's zero value.
\<close>

definition NewCluster :: "Config \<Rightarrow> string \<Rightarrow> Cluster" where
  "NewCluster cfg nid =
     (let self = \<lparr>ID = nid, Address = ''localhost'', Port = ClusterPort cfg,
                  Status = ''active'', LastSeen = 0\<rparr>
      in \<lparr>selfNode = self, nodes = [nid \<mapsto> self], config = cfg\<rparr>)"

subsection \<open>Registry operations\<close>

text \<open>
  \<open>AddNode\<close> stamps the node with the current time (the parameter \<open>now\<close> stands for
  \<open>time.Now().Unix()\<close>) and stores it under its id, replacing any record already there.
\<close>

definition AddNode :: "Node \<Rightarrow> int64 \<Rightarrow> Cluster \<Rightarrow> Cluster" where
  "AddNode node now c =
     (let node' = node\<lparr>LastSeen := now\<rparr>
      in c\<lparr>nodes := (nodes c)(ID node' \<mapsto> node')\<rparr>)"

definition RemoveNode :: "string \<Rightarrow> Cluster \<Rightarrow> Cluster" where
  "RemoveNode nodeID c =
     (case nodes c nodeID of
        None \<Rightarrow> c
      | Some node \<Rightarrow> c\<lparr>nodes := (nodes c)(nodeID \<mapsto> node\<lparr>Status := ''inactive''\<rparr>)\<rparr>)"

definition GetNode :: "Cluster \<Rightarrow> string \<Rightarrow> Node option" where
  "GetNode c nodeID = nodes c nodeID"

definition updateNodeStatus :: "string \<Rightarrow> bool \<Rightarrow> int64 \<Rightarrow> Cluster \<Rightarrow> Cluster" where
  "updateNodeStatus nodeID alive now c =
     (case nodes c nodeID of
        None \<Rightarrow> c
      | Some node \<Rightarrow>
          if alive then c\<lparr>nodes := (nodes c)(nodeID \<mapsto> node\<lparr>Status := ''active'', LastSeen := now\<rparr>)\<rparr>
          else c\<lparr>nodes := (nodes c)(nodeID \<mapsto> node\<lparr>Status := ''inactive''\<rparr>)\<rparr>)"

subsection \<open>Iterating over the registry\<close>

text \<open>
  \<open>for _, node := range c.nodes\<close> visits every entry of the map once, in an order that Go
  leaves unspecified and that may change from one loop to the next. The order the runtime
  picks is the parameter \<open>ord\<close>, a list of keys; \<open>rangeOrder\<close> says that it is one the
  runtime can pick, and \<open>rangeValues\<close> is the sequence of values the loop then sees.
\<close>

definition rangeOrder :: "(string \<rightharpoonup> Node) \<Rightarrow> string list \<Rightarrow> bool" where
  "rangeOrder m ord \<longleftrightarrow> distinct ord \<and> set ord = dom m"

definition rangeValues :: "(string \<rightharpoonup> Node) \<Rightarrow> string list \<Rightarrow> Node list" where
  "rangeValues m ord = List.map_filter m ord"

fun activeLoop :: "Node list \<Rightarrow> Node list \<Rightarrow> Node list" where
  "activeLoop [] activeNodes = activeNodes"
| "activeLoop (node # rest) activeNodes =
     (if Status node = ''active'' then activeLoop rest (activeNodes @ [node])
      else activeLoop rest activeNodes)"

definition GetActiveNodes :: "string list \<Rightarrow> Cluster \<Rightarrow> Node list" where
  "GetActiveNodes ord c = activeLoop (rangeValues (nodes c) ord) []"

subsection \<open>The transport\<close>

text \<open>
  An outbound request either fails (\<open>err != nil\<close>) or comes back with a status code and a
  body; for the gossip endpoint the body is the peer's membership list. The network is a
  parameter: \<open>net k url\<close> is the reply to the \<open>k\<close>-th request of a round, sent to \<open>url\<close>.
\<close>

datatype response = NetError | Http int "Node list"

datatype error =
    NotEnoughActiveNodes int
  | ReplicateFailed string
  | ReplicateStatus int

datatype logline =
    GossipFailed string
  | GossipStatus string int
  | ReplicateLog "rune list" string error

datatype panic = IndexOutOfRange | NilDereference

definition endpoint :: "Node \<Rightarrow> string \<Rightarrow> string" where
  "endpoint node path = ''http://'' @ Address node @ '':'' @ Port node @ path"

subsection \<open>Failure detector\<close>

definition pingNode :: "(string \<Rightarrow> response) \<Rightarrow> Node \<Rightarrow> bool" where
  "pingNode get node =
     (case get (endpoint node ''/health'') of
        NetError \<Rightarrow> False
      | Http code body \<Rightarrow> code = 200)"

text \<open>
  The second loop of \<open>performHeartbeat\<close>. The state is the cluster and the ids probed so
  far; \<open>clock k\<close> is what \<open>time.Now().Unix()\<close> returns after the \<open>k\<close>-th probe.
\<close>

fun heartbeatLoop ::
  "(nat \<Rightarrow> string \<Rightarrow> response) \<Rightarrow> (nat \<Rightarrow> int64) \<Rightarrow> Node list \<Rightarrow>
   Cluster \<times> string list \<Rightarrow> Cluster \<times> string list" where
  "heartbeatLoop net clock [] st = st"
| "heartbeatLoop net clock (node # rest) (c, probed) =
     (if ID node = ID (selfNode c) then heartbeatLoop net clock rest (c, probed)
      else
        let alive = pingNode (net (length probed)) node;
            c' = updateNodeStatus (ID node) alive (clock (length probed)) c
        in heartbeatLoop net clock rest (c', probed @ [ID node]))"

definition performHeartbeat ::
  "string list \<Rightarrow> (nat \<Rightarrow> string \<Rightarrow> response) \<Rightarrow> (nat \<Rightarrow> int64) \<Rightarrow> Cluster \<Rightarrow>
   Cluster \<times> string list" where
  "performHeartbeat ord net clock c =
     heartbeatLoop net clock (rangeValues (nodes c) ord) (c, [])"

subsection \<open>Gossip\<close>

text \<open>
  \<open>exchangeGossip\<close> posts the active-node list to the peer and logs a failure. After a
  200 reply the source has only the comment ``This would normally merge the membership
  lists'': the body is never read, and the cluster comes back as it was.
\<close>

definition exchangeGossip ::
  "string list \<Rightarrow> (string \<Rightarrow> Node list \<Rightarrow> response) \<Rightarrow> Cluster \<Rightarrow> Node \<Rightarrow>
   Cluster \<times> logline list" where
  "exchangeGossip ord post c node =
     (let url = endpoint node ''/cluster/gossip'';
          localNodes = GetActiveNodes ord c
      in case post url localNodes of
           NetError \<Rightarrow> (c, [GossipFailed (ID node)])
         | Http code body \<Rightarrow>
             if code \<noteq> 200 then (c, [GossipStatus (ID node) code])
             else (c, []))"

subsection \<open>Partitioner: the hash of a key\<close>

text \<open>
  \<open>for _, r := range key { hash = (hash << 5) - hash + int(r) }\<close>. The key is the sequence
  of runes that \<open>range\<close> yields for the string. The step is written for any word width, so
  that it also covers a 32-bit \<open>int\<close>.
\<close>

definition hashStep :: "'w::len word \<Rightarrow> rune \<Rightarrow> 'w word" where
  "hashStep hash r = push_bit 5 hash - hash + scast r"

fun hashLoop :: "'w::len word \<Rightarrow> rune list \<Rightarrow> 'w word" where
  "hashLoop hash [] = hash"
| "hashLoop hash (r # rs) = hashLoop (hashStep hash r) rs"

definition keyHash :: "rune list \<Rightarrow> goint" where
  "keyHash key = hashLoop 0 key"

text \<open>
  The reference accumulator in the words of the specification: \<open>h = h*31 + codepoint\<close>,
  seeded at 0, folded left to right, in arithmetic modulo \<open>2 ^ w\<close>.
\<close>

definition polyHash :: "rune list \<Rightarrow> 'w::len word" where
  "polyHash key = foldl (\<lambda>h c. h * 31 + scast c) 0 key"

subsection \<open>Partitioner: the owner of a key\<close>

text \<open>
  \<open>index := hash % len(activeNodes); if index < 0 { index = -index }\<close>. Go's \<open>%\<close>
  truncates towards zero, which is \<open>smod\<close>; the hash is read as a signed 64-bit value.
  The length of a slice is below \<open>2 ^ 63\<close>, so neither \<open>%\<close> nor the negation wraps and
  both are computed on \<open>int\<close>.
\<close>

definition partitionIndex :: "rune list \<Rightarrow> nat \<Rightarrow> int" where
  "partitionIndex key n =
     (let index = sint (keyHash key) smod int n
      in if index < 0 then - index else index)"

text \<open>Indexing a slice panics outside \<open>[0, len)\<close>.\<close>

definition sliceIndex :: "'a list \<Rightarrow> int \<Rightarrow> panic + 'a" where
  "sliceIndex xs i =
     (if 0 \<le> i \<and> i < int (length xs) then Inr (xs ! nat i) else Inl IndexOutOfRange)"

text \<open>\<open>GetPartitionForKey\<close>: \<open>Inr None\<close> is the \<open>nil\<close> result.\<close>

definition GetPartitionForKey :: "string list \<Rightarrow> Cluster \<Rightarrow> rune list \<Rightarrow> panic + Node option" where
  "GetPartitionForKey ord c key =
     (let activeNodes = GetActiveNodes ord c
      in if length activeNodes = 0 then Inr None
         else case sliceIndex activeNodes (partitionIndex key (length activeNodes)) of
                Inl p \<Rightarrow> Inl p
              | Inr node \<Rightarrow> Inr (Some node))"

subsection \<open>Replicator\<close>

definition replicateToNode :: "(string \<Rightarrow> response) \<Rightarrow> Node \<Rightarrow> error option" where
  "replicateToNode post node =
     (case post (endpoint node ''/data/replicate'') of
        NetError \<Rightarrow> Some (ReplicateFailed (ID node))
      | Http code body \<Rightarrow> if code \<noteq> 200 then Some (ReplicateStatus code) else None)"

text \<open>
  The inner loop of \<open>ReplicateData\<close>: the position of the first node of the snapshot that
  carries the primary's id, 0 when there is none.
\<close>

fun findPrimaryIdx :: "Node list \<Rightarrow> string \<Rightarrow> nat \<Rightarrow> nat" where
  "findPrimaryIdx [] pid j = 0"
| "findPrimaryIdx (node # rest) pid j =
     (if ID node = pid then j else findPrimaryIdx rest pid (Suc j))"

text \<open>
  \<open>for i := 1; i < replicationFactor && i < len(activeNodes); i++\<close>. The index
  \<open>(primaryIdx + i) % len(activeNodes)\<close> is taken where the length is positive, so the
  read is in range.
\<close>

function replicaLoop :: "nat \<Rightarrow> int \<Rightarrow> Node list \<Rightarrow> Node \<Rightarrow> Node list \<Rightarrow> Node list" where
  "replicaLoop i R activeNodes primary selected =
     (if int i < R \<and> i < length activeNodes then
        let primaryIdx = findPrimaryIdx activeNodes (ID primary) 0;
            replicaIdx = (primaryIdx + i) mod length activeNodes
        in replicaLoop (Suc i) R activeNodes primary (selected @ [activeNodes ! replicaIdx])
      else selected)"
  by pat_completeness auto
termination
  by (relation "measure (\<lambda>(i, R, activeNodes, primary, selected). length activeNodes - i)") auto

declare replicaLoop.simps [simp del]

text \<open>
  The last loop of \<open>ReplicateData\<close>. The state is the list of requests sent so far (url,
  key, value) and the failures logged.
\<close>

type_synonym 'v call = "string \<times> rune list \<times> 'v"

fun pushLoop ::
  "(nat \<Rightarrow> string \<Rightarrow> response) \<Rightarrow> string \<Rightarrow> rune list \<Rightarrow> 'v \<Rightarrow> Node list \<Rightarrow>
   'v call list \<times> logline list \<Rightarrow> 'v call list \<times> logline list" where
  "pushLoop net selfID key val [] st = st"
| "pushLoop net selfID key val (node # rest) (calls, logged) =
     (if ID node = selfID then pushLoop net selfID key val rest (calls, logged)
      else
        let sent = calls @ [(endpoint node ''/data/replicate'', key, val)]
        in case replicateToNode (net (length calls)) node of
             None \<Rightarrow> pushLoop net selfID key val rest (sent, logged)
           | Some err \<Rightarrow>
               pushLoop net selfID key val rest (sent, logged @ [ReplicateLog key (ID node) err]))"

text \<open>
  \<open>ReplicateData\<close>. It takes two snapshots of the active nodes, its own (\<open>ord1\<close>) and the
  one inside \<open>GetPartitionForKey\<close> (\<open>ord2\<close>). A \<open>nil\<close> primary is dereferenced by
  \<open>nodes[0].ID\<close> in the first round of the replica loop, which runs since the snapshot
  has at least two nodes there. The result is the returned error, the requests sent and
  the log.
\<close>

definition ReplicateData ::
  "string list \<Rightarrow> string list \<Rightarrow> (nat \<Rightarrow> string \<Rightarrow> response) \<Rightarrow> Cluster \<Rightarrow> rune list \<Rightarrow> 'v \<Rightarrow>
   panic + (error option \<times> 'v call list \<times> logline list)" where
  "ReplicateData ord1 ord2 net c key val =
     (let replicationFactor = ReplicationFactor (config c)
      in if replicationFactor \<le> 1 then Inr (None, [], [])
         else
           let activeNodes = GetActiveNodes ord1 c
           in if int (length activeNodes) < replicationFactor
              then Inr (Some (NotEnoughActiveNodes replicationFactor), [], [])
              else case GetPartitionForKey ord2 c key of
                     Inl p \<Rightarrow> Inl p
                   | Inr None \<Rightarrow> Inl NilDereference
                   | Inr (Some primary) \<Rightarrow>
                       let selected = replicaLoop 1 replicationFactor activeNodes primary [primary];
                           (calls, logged) = pushLoop net (ID (selfNode c)) key val selected ([], [])
                       in Inr (None, calls, logged))"

subsection \<open>The cluster endpoints of internal/server/routes.go\<close>

text \<open>
  \<open>SetupRoutes\<close> registers two routes under \<open>/cluster/\<close>, each with a literal path and one
  method, and a catch-all that serves \<open>notFoundHandler\<close>. The other routes begin with
  \<open>/health\<close>, \<open>/docs/\<close>, \<open>/kv/\<close>, \<open>/columns/\<close> or \<open>/graph/\<close>, so none of them takes a
  request whose path begins with \<open>/cluster/\<close>. \<open>notFoundHandler\<close> is not given the
  database.
\<close>

datatype handler = clusterStatusHandler | addNodeHandler | notFoundHandler

definition clusterRoutes :: "(string \<times> string \<times> handler) list" where
  "clusterRoutes =
     [(''/cluster/status'', ''GET'', clusterStatusHandler),
      (''/cluster/nodes'', ''POST'', addNodeHandler)]"

fun matchRoute :: "(string \<times> string \<times> handler) list \<Rightarrow> string \<Rightarrow> string \<Rightarrow> handler" where
  "matchRoute [] method path = notFoundHandler"
| "matchRoute ((p, m, h) # rest) method path =
     (if path = p \<and> method = m then h else matchRoute rest method path)"

subsection \<open>Runs of the registry operations\<close>

text \<open>
  A run is a sequence of calls into the cluster: \<open>AddNode\<close>, \<open>RemoveNode\<close>,
  \<open>updateNodeStatus\<close> and heartbeat rounds, each with the inputs it receives from its
  caller, the clock, the network and the runtime.
\<close>

datatype step =
    CallAddNode Node int64
  | CallRemoveNode string
  | CallUpdateNodeStatus string bool int64
  | HeartbeatRound "string list" "nat \<Rightarrow> string \<Rightarrow> response" "nat \<Rightarrow> int64"

fun applyStep :: "step \<Rightarrow> Cluster \<Rightarrow> Cluster" where
  "applyStep (CallAddNode node now) c = AddNode node now c"
| "applyStep (CallRemoveNode nodeID) c = RemoveNode nodeID c"
| "applyStep (CallUpdateNodeStatus nodeID alive now) c = updateNodeStatus nodeID alive now c"
| "applyStep (HeartbeatRound ord net clock) c = fst (performHeartbeat ord net clock c)"

fun run :: "step list \<Rightarrow> Cluster \<Rightarrow> Cluster" where
  "run [] c = c"
| "run (s # steps) c = run steps (applyStep s c)"

text \<open>The calls that do not name the given node id.\<close>

fun sparesNode :: "string \<Rightarrow> step \<Rightarrow> bool" where
  "sparesNode nid (CallAddNode node now) \<longleftrightarrow> ID node \<noteq> nid"
| "sparesNode nid (CallRemoveNode nodeID) \<longleftrightarrow> nodeID \<noteq> nid"
| "sparesNode nid (CallUpdateNodeStatus nodeID alive now) \<longleftrightarrow> nodeID \<noteq> nid"
| "sparesNode nid (HeartbeatRound ord net clock) \<longleftrightarrow> True"

definition selfActive :: "Cluster \<Rightarrow> bool" where
  "selfActive c =
     (case nodes c (ID (selfNode c)) of
        None \<Rightarrow> False
      | Some node \<Rightarrow> Status node = ''active'')"

subsection \<open>Well-formed registries and sample states\<close>

text \<open>
  Every record is stored under its own id: \<open>NewCluster\<close> and \<open>AddNode\<close> write
  \<open>c.nodes[node.ID] = node\<close>, and nothing writes an \<open>ID\<close> afterwards.
\<close>

definition wellFormed :: "Cluster \<Rightarrow> bool" where
  "wellFormed c \<longleftrightarrow> (\<forall>k n. nodes c k = Some n \<longrightarrow> ID n = k)"

definition selfID :: string where
  "selfID = ''node-1700000000-42''"

definition cfg :: "int \<Rightarrow> Config" where
  "cfg R = \<lparr>ClusterPort = ''9090'', ReplicationFactor = R\<rparr>"

definition peerA :: Node where
  "peerA = \<lparr>ID = ''node-1'', Address = ''10.0.0.2'', Port = ''9090'',
            Status = ''active'', LastSeen = 0\<rparr>"

definition peerB :: Node where
  "peerB = \<lparr>ID = ''node-2'', Address = ''10.0.0.3'', Port = ''9090'',
            Status = ''active'', LastSeen = 0\<rparr>"

definition twoNodes :: "int \<Rightarrow> Cluster" where
  "twoNodes R = AddNode peerA 1700000050 (NewCluster (cfg R) selfID)"

definition threeNodes :: "int \<Rightarrow> Cluster" where
  "threeNodes R = AddNode peerB 1700000060 (twoNodes R)"

section \<open>Properties\<close>

subsection \<open>The hash is the polynomial accumulator\<close>

lemma hashStep_times_31: "hashStep h r = h * 31 + scast r"
proof -
  have "push_bit 5 h - h = h * 32 - h"
    by (simp add: push_bit_eq_mult)
  also have "\<dots> = h * 31"
    by (simp add: algebra_simps)
  finally show ?thesis
    by (simp add: hashStep_def)
qed

lemma hashLoop_foldl: "hashLoop h key = foldl (\<lambda>h c. h * 31 + scast c) h key"
  by (induction key arbitrary: h) (simp_all add: hashStep_times_31)

text \<open>
  C9. For every key the hash that \<open>GetPartitionForKey\<close> computes with
  \<open>(hash << 5) - hash + int(r)\<close> equals the accumulator \<open>h = h*31 + codepoint\<close> seeded at 0,
  modulo \<open>2 ^ w\<close> for every width \<open>w\<close>, and it does so on every prefix of the key.
\<close>

theorem keyHash_is_polyHash:
  "hashLoop (0 :: 'w::len word) (take n key) = polyHash (take n key)
   \<and> hashLoop (0 :: 'w word) key = polyHash key
   \<and> keyHash key = polyHash key"
  by (simp add: polyHash_def keyHash_def hashLoop_foldl)

subsection \<open>Evaluating the sample states\<close>

lemmas sample_defs = selfID_def cfg_def peerA_def peerB_def twoNodes_def threeNodes_def
  NewCluster_def AddNode_def RemoveNode_def Let_def

lemmas snapshot_defs = GetActiveNodes_def rangeValues_def map_filter_simps

subsection \<open>Snapshots of the active nodes\<close>

lemma activeLoop_filter:
  "activeLoop xs acc = acc @ filter (\<lambda>n. Status n = ''active'') xs"
  by (induction xs arbitrary: acc) simp_all

lemma GetActiveNodes_filter:
  "GetActiveNodes ord c = filter (\<lambda>n. Status n = ''active'') (rangeValues (nodes c) ord)"
  by (simp add: GetActiveNodes_def activeLoop_filter)

lemma rangeValues_map:
  "set ord \<subseteq> dom m \<Longrightarrow> rangeValues m ord = map (\<lambda>k. the (m k)) ord"
  unfolding rangeValues_def
  by (induction ord) (auto simp: map_filter_simps)

lemma rangeValues_mset:
  assumes "rangeOrder m ord"
  shows "mset (rangeValues m ord) = image_mset (\<lambda>k. the (m k)) (mset_set (dom m))"
proof -
  from assms have d: "distinct ord" and s: "set ord = dom m"
    by (simp_all add: rangeOrder_def)
  have "mset_set (dom m) = mset ord"
    using d s mset_set_set by metis
  then show ?thesis
    using s by (simp add: rangeValues_map)
qed

lemma GetActiveNodes_mset_order:
  assumes "rangeOrder (nodes c) ord1" and "rangeOrder (nodes c) ord2"
  shows "mset (GetActiveNodes ord1 c) = mset (GetActiveNodes ord2 c)"
  using assms by (simp add: GetActiveNodes_filter rangeValues_mset)

lemma GetActiveNodes_length_order:
  assumes "rangeOrder (nodes c) ord1" and "rangeOrder (nodes c) ord2"
  shows "length (GetActiveNodes ord1 c) = length (GetActiveNodes ord2 c)"
  using GetActiveNodes_mset_order [OF assms] by (metis size_mset)

lemma GetActiveNodes_set_order:
  assumes "rangeOrder (nodes c) ord1" and "rangeOrder (nodes c) ord2"
  shows "set (GetActiveNodes ord1 c) = set (GetActiveNodes ord2 c)"
  using GetActiveNodes_mset_order [OF assms] by (metis set_mset_mset)

lemma GetActiveNodes_set:
  assumes "rangeOrder (nodes c) ord"
  shows "set (GetActiveNodes ord c) = {n. \<exists>k. nodes c k = Some n \<and> Status n = ''active''}"
proof -
  from assms have s: "set ord = dom (nodes c)"
    by (simp add: rangeOrder_def)
  then have "set (rangeValues (nodes c) ord) = ran (nodes c)"
    by (force simp: rangeValues_map ran_def dom_def)
  then show ?thesis
    by (auto simp: GetActiveNodes_filter ran_def)
qed

lemma rangeValues_ids:
  assumes "wellFormed c" and "set ord \<subseteq> dom (nodes c)"
  shows "map ID (rangeValues (nodes c) ord) = ord"
proof -
  have "\<And>k. k \<in> set ord \<Longrightarrow> ID (the (nodes c k)) = k"
    using assms by (auto simp: wellFormed_def)
  then show ?thesis
    using assms(2) by (simp add: rangeValues_map map_idI)
qed

lemma GetActiveNodes_distinct_ids:
  assumes "wellFormed c" and "rangeOrder (nodes c) ord"
  shows "distinct (map ID (GetActiveNodes ord c))"
proof -
  from assms(2) have "distinct ord" and "set ord \<subseteq> dom (nodes c)"
    by (simp_all add: rangeOrder_def)
  then have "distinct (map ID (rangeValues (nodes c) ord))"
    using rangeValues_ids [OF assms(1)] by simp
  then show ?thesis
    by (simp add: GetActiveNodes_filter distinct_map_filter)
qed

subsection \<open>Every run keeps the registry well formed\<close>

lemma NewCluster_wellFormed: "wellFormed (NewCluster cfgv nid)"
  by (simp add: wellFormed_def NewCluster_def Let_def)

lemma AddNode_wellFormed: "wellFormed c \<Longrightarrow> wellFormed (AddNode node now c)"
  by (simp add: wellFormed_def AddNode_def Let_def)

lemma RemoveNode_wellFormed: "wellFormed c \<Longrightarrow> wellFormed (RemoveNode nodeID c)"
  by (auto simp: wellFormed_def RemoveNode_def split: option.splits)

lemma updateNodeStatus_wellFormed:
  "wellFormed c \<Longrightarrow> wellFormed (updateNodeStatus nodeID alive now c)"
  by (auto simp: wellFormed_def updateNodeStatus_def split: option.splits)

lemma heartbeatLoop_wellFormed:
  "wellFormed c \<Longrightarrow> wellFormed (fst (heartbeatLoop net clock ns (c, probed)))"
  by (induction ns arbitrary: c probed) (simp_all add: Let_def updateNodeStatus_wellFormed)

lemma applyStep_wellFormed: "wellFormed c \<Longrightarrow> wellFormed (applyStep s c)"
  by (cases s)
    (simp_all add: AddNode_wellFormed RemoveNode_wellFormed updateNodeStatus_wellFormed
       performHeartbeat_def heartbeatLoop_wellFormed)

lemma run_wellFormed: "wellFormed c \<Longrightarrow> wellFormed (run steps c)"
  by (induction steps arbitrary: c) (simp_all add: applyStep_wellFormed)

subsection \<open>The partition index stays inside the snapshot\<close>

lemma partitionIndex_range:
  assumes "0 < n"
  shows "0 \<le> partitionIndex key n \<and> partitionIndex key n < int n"
proof -
  define h where "h = sint (keyHash key)"
  have m: "\<bar>h\<bar> mod int n < int n" "0 \<le> \<bar>h\<bar> mod int n"
    using assms by simp_all
  have "\<bar>h smod int n\<bar> = \<bar>h\<bar> mod int n"
    using m by (cases "h = 0") (simp_all add: smod_int_alt_def abs_mult abs_sgn_eq)
  then show ?thesis
    using m unfolding partitionIndex_def h_def [symmetric] Let_def
    by (simp split: if_splits) linarith
qed

text \<open>
  C3. For every key and every snapshot of size N: when N = 0, \<open>GetPartitionForKey\<close>
  returns nil; when N > 0, the index it computes lies in \<open>[0, N)\<close>, the read does not
  panic, and the result is the element of the snapshot at that index.
\<close>

theorem GetPartitionForKey_in_bounds:
  "(length (GetActiveNodes ord c) = 0 \<longrightarrow> GetPartitionForKey ord c key = Inr None) \<and>
   (0 < length (GetActiveNodes ord c) \<longrightarrow>
      0 \<le> partitionIndex key (length (GetActiveNodes ord c)) \<and>
      partitionIndex key (length (GetActiveNodes ord c)) < int (length (GetActiveNodes ord c)) \<and>
      GetPartitionForKey ord c key =
        Inr (Some (GetActiveNodes ord c ! nat (partitionIndex key (length (GetActiveNodes ord c))))) \<and>
      (\<exists>node \<in> set (GetActiveNodes ord c). GetPartitionForKey ord c key = Inr (Some node)))"
proof (intro conjI impI)
  assume "length (GetActiveNodes ord c) = 0"
  then show "GetPartitionForKey ord c key = Inr None"
    by (simp add: GetPartitionForKey_def)
next
  assume pos: "0 < length (GetActiveNodes ord c)"
  let ?xs = "GetActiveNodes ord c"
  let ?i = "partitionIndex key (length ?xs)"
  from partitionIndex_range [OF pos, of key]
  show lo: "0 \<le> ?i" and hi: "?i < int (length ?xs)" by simp_all
  show eq: "GetPartitionForKey ord c key = Inr (Some (?xs ! nat ?i))"
    using pos lo hi by (simp add: GetPartitionForKey_def sliceIndex_def Let_def)
  have "nat ?i < length ?xs" using lo hi by linarith
  then have "?xs ! nat ?i \<in> set ?xs" by (rule nth_mem)
  with eq show "\<exists>node \<in> set ?xs. GetPartitionForKey ord c key = Inr (Some node)"
    by blast
qed

theorem GetPartitionForKey_in_bounds_witness:
  "GetPartitionForKey [selfID] (RemoveNode selfID (NewCluster (cfg 1) selfID)) [102, 111, 111] = Inr None
   \<and> GetPartitionForKey [selfID, ''node-1''] (twoNodes 1) [97] = Inr (Some (peerA\<lparr>LastSeen := 1700000050\<rparr>))"
proof -
  have a: "length (GetActiveNodes [selfID] (RemoveNode selfID (NewCluster (cfg 1) selfID))) = 0"
    by (simp add: sample_defs snapshot_defs)
  have b: "GetActiveNodes [selfID, ''node-1''] (twoNodes 1) =
      [\<lparr>ID = selfID, Address = ''localhost'', Port = ''9090'', Status = ''active'', LastSeen = 0\<rparr>,
       peerA\<lparr>LastSeen := 1700000050\<rparr>]"
    by (simp add: sample_defs snapshot_defs)
  have i: "partitionIndex [97] (Suc (Suc 0)) = 1"
    by (simp add: partitionIndex_def keyHash_def hashStep_def smod_int_alt_def)
  from GetPartitionForKey_in_bounds [of "[selfID]" "RemoveNode selfID (NewCluster (cfg 1) selfID)" "[102, 111, 111]"] a
  have 1: "GetPartitionForKey [selfID] (RemoveNode selfID (NewCluster (cfg 1) selfID)) [102, 111, 111] = Inr None"
    by blast
  from GetPartitionForKey_in_bounds [of "[selfID, ''node-1'']" "twoNodes 1" "[97]"]
  have 2: "GetPartitionForKey [selfID, ''node-1''] (twoNodes 1) [97] = Inr (Some (peerA\<lparr>LastSeen := 1700000050\<rparr>))"
    by (simp add: b i)
  from 1 2 show ?thesis by simp
qed

subsection \<open>Removing an unknown node\<close>

text \<open>
  C10. For a node id that is absent from the registry, \<open>RemoveNode\<close> returns the cluster
  unchanged: no entry is inserted and no record is modified.
\<close>

theorem RemoveNode_absent_unchanged:
  "nodes c nodeID = None \<Longrightarrow> RemoveNode nodeID c = c"
  by (simp add: RemoveNode_def)

theorem RemoveNode_absent_unchanged_witness:
  "nodes (twoNodes 1) ''node-9'' = None \<and> RemoveNode ''node-9'' (twoNodes 1) = twoNodes 1"
proof -
  have a: "nodes (twoNodes 1) ''node-9'' = None"
    by (simp add: sample_defs)
  from a RemoveNode_absent_unchanged [OF a] show ?thesis by simp
qed

subsection \<open>The loops of the replicator in closed form\<close>

lemma pushLoop_calls:
  "fst (pushLoop net self key val ns (calls, logged)) =
     calls @ map (\<lambda>n. (endpoint n ''/data/replicate'', key, val)) (filter (\<lambda>n. ID n \<noteq> self) ns)"
  by (induction ns arbitrary: calls logged) (simp_all add: Let_def split: option.splits)

lemma pushLoop_logged_length:
  "length (snd (pushLoop net self key val ns (calls, logged))) \<le>
     length logged + length (filter (\<lambda>n. ID n \<noteq> self) ns)"
proof (induction ns arbitrary: calls logged)
  case Nil
  then show ?case by simp
next
  case (Cons n ns)
  show ?case
  proof (cases "ID n = self")
    case True
    then show ?thesis using Cons.IH [of calls logged] by simp
  next
    case False
    show ?thesis
    proof (cases "replicateToNode (net (length calls)) n")
      case None
      then show ?thesis
        using False Cons.IH [of "calls @ [(endpoint n ''/data/replicate'', key, val)]" logged]
        by (simp add: Let_def)
    next
      case (Some e)
      then show ?thesis
        using False Cons.IH [of "calls @ [(endpoint n ''/data/replicate'', key, val)]"
              "logged @ [ReplicateLog key (ID n) e]"]
        by (simp add: Let_def)
    qed
  qed
qed

lemma pushLoop_all_fail:
  assumes "\<And>k n. replicateToNode (net k) n \<noteq> None"
  shows "length (snd (pushLoop net self key val ns (calls, logged))) =
     length logged + length (filter (\<lambda>n. ID n \<noteq> self) ns)"
proof (induction ns arbitrary: calls logged)
  case Nil
  then show ?case by simp
next
  case (Cons n ns)
  show ?case
  proof (cases "ID n = self")
    case True
    then show ?thesis using Cons.IH [of calls logged] by simp
  next
    case False
    from assms obtain e where e: "replicateToNode (net (length calls)) n = Some e"
      by blast
    then show ?thesis
      using False Cons.IH [of "calls @ [(endpoint n ''/data/replicate'', key, val)]"
            "logged @ [ReplicateLog key (ID n) e]"]
      by (simp add: Let_def)
  qed
qed

lemma replicaLoop_closed:
  "replicaLoop i R activeNodes primary selected =
     selected @ map (\<lambda>k. activeNodes ! ((findPrimaryIdx activeNodes (ID primary) 0 + k) mod length activeNodes))
                    [i ..< nat (min R (int (length activeNodes)))]"
proof (induction i R activeNodes primary selected rule: replicaLoop.induct)
  case (1 i R activeNodes primary selected)
  show ?case
  proof (cases "int i < R \<and> i < length activeNodes")
    case True
    then have lt: "i < nat (min R (int (length activeNodes)))" by linarith
    have "replicaLoop i R activeNodes primary selected =
          replicaLoop (Suc i) R activeNodes primary
            (selected @ [activeNodes ! ((findPrimaryIdx activeNodes (ID primary) 0 + i) mod length activeNodes)])"
      using True by (subst replicaLoop.simps) (simp add: Let_def)
    also have "\<dots> = (selected @ [activeNodes ! ((findPrimaryIdx activeNodes (ID primary) 0 + i) mod length activeNodes)])
        @ map (\<lambda>k. activeNodes ! ((findPrimaryIdx activeNodes (ID primary) 0 + k) mod length activeNodes))
                    [Suc i ..< nat (min R (int (length activeNodes)))]"
      using "1.IH" [OF True refl refl] by simp
    finally show ?thesis
      using lt by (simp add: upt_conv_Cons)
  next
    case False
    then have "\<not> i < nat (min R (int (length activeNodes)))" by linarith
    moreover have "replicaLoop i R activeNodes primary selected = selected"
      using False by (subst replicaLoop.simps) auto
    ultimately show ?thesis by simp
  qed
qed

lemma findPrimaryIdx_found:
  assumes "pid \<in> ID ` set xs"
  shows "\<exists>i < length xs. findPrimaryIdx xs pid j = j + i \<and> ID (xs ! i) = pid"
  using assms
proof (induction xs arbitrary: j)
  case Nil
  then show ?case by simp
next
  case (Cons x xs)
  show ?case
  proof (cases "ID x = pid")
    case True
    then have "findPrimaryIdx (x # xs) pid j = j + 0 \<and> ID ((x # xs) ! 0) = pid" by simp
    then show ?thesis by blast
  next
    case False
    with Cons.prems have "pid \<in> ID ` set xs" by auto
    from Cons.IH [OF this, of "Suc j"] obtain i where
      i: "i < length xs" "findPrimaryIdx xs pid (Suc j) = Suc j + i" "ID (xs ! i) = pid"
      by blast
    then have "Suc i < length (x # xs) \<and> findPrimaryIdx (x # xs) pid j = j + Suc i
               \<and> ID ((x # xs) ! Suc i) = pid"
      using False by simp
    then show ?thesis by blast
  qed
qed

lemma ReplicateData_unfold:
  assumes "1 < ReplicationFactor (config c)"
    and "ReplicationFactor (config c) \<le> int (length (GetActiveNodes ord1 c))"
    and "GetPartitionForKey ord2 c key = Inr (Some primary)"
  shows "ReplicateData ord1 ord2 net c key val =
     Inr (None,
          pushLoop net (ID (selfNode c)) key val
            (replicaLoop 1 (ReplicationFactor (config c)) (GetActiveNodes ord1 c) primary [primary])
            ([], []))"
  using assms by (simp add: ReplicateData_def Let_def split: prod.splits)

subsection \<open>The replication-factor and active-node checks\<close>

text \<open>
  C5. With a replication factor R \<open>\<le>\<close> 1, \<open>ReplicateData\<close> returns success and sends no
  request. With R > 1 it returns the not-enough-active-nodes error exactly when the
  snapshot has fewer than R nodes, and then it sends no request either. By
  \<open>GetActiveNodes_length_order\<close> the size of the snapshot does not depend on the order
  of iteration.
\<close>

theorem ReplicateData_replication_factor_checks:
  "(ReplicationFactor (config c) \<le> 1 \<longrightarrow>
      ReplicateData ord1 ord2 net c key val = Inr (None, [], []))
   \<and> (1 < ReplicationFactor (config c) \<longrightarrow>
        (int (length (GetActiveNodes ord1 c)) < ReplicationFactor (config c) \<longrightarrow>
           ReplicateData ord1 ord2 net c key val =
             Inr (Some (NotEnoughActiveNodes (ReplicationFactor (config c))), [], []))
        \<and> (\<not> int (length (GetActiveNodes ord1 c)) < ReplicationFactor (config c) \<longrightarrow>
             (\<forall>e calls logged.
                ReplicateData ord1 ord2 net c key val \<noteq> Inr (Some e, calls, logged))))"
  by (auto simp: ReplicateData_def Let_def split: sum.splits option.splits prod.splits)

theorem ReplicateData_replication_factor_checks_witness:
  "ReplicateData [selfID, ''node-1''] [''node-1'', selfID] (\<lambda>k url. NetError) (twoNodes 1)
     [117, 115, 101, 114] (''v'' :: string) = Inr (None, [], [])
   \<and> ReplicateData [selfID, ''node-1''] [''node-1'', selfID] (\<lambda>k url. NetError) (twoNodes 3)
     [117, 115, 101, 114] (''v'' :: string) = Inr (Some (NotEnoughActiveNodes 3), [], [])
   \<and> (\<forall>e calls logged.
         ReplicateData [selfID, ''node-1''] [''node-1'', selfID] (\<lambda>k url. NetError) (twoNodes 2)
           [117, 115, 101, 114] (''v'' :: string) \<noteq> Inr (Some e, calls, logged))"
proof -
  let ?go = "\<lambda>R. ReplicateData [selfID, ''node-1''] [''node-1'', selfID] (\<lambda>k url. NetError)
     (twoNodes R) [117, 115, 101, 114] (''v'' :: string)"
  have r: "ReplicationFactor (config (twoNodes 1)) \<le> 1"
    "1 < ReplicationFactor (config (twoNodes 3))" "ReplicationFactor (config (twoNodes 3)) = 3"
    "1 < ReplicationFactor (config (twoNodes 2))"
    by (simp_all add: sample_defs)
  have n3: "int (length (GetActiveNodes [selfID, ''node-1''] (twoNodes 3)))
              < ReplicationFactor (config (twoNodes 3))"
    by (simp add: sample_defs snapshot_defs)
  have n2: "\<not> int (length (GetActiveNodes [selfID, ''node-1''] (twoNodes 2)))
              < ReplicationFactor (config (twoNodes 2))"
    by (simp add: sample_defs snapshot_defs)
  from ReplicateData_replication_factor_checks
         [of "twoNodes 1" "[selfID, ''node-1'']" "[''node-1'', selfID]" "\<lambda>k url. NetError"
             "[117, 115, 101, 114]" "''v''"] r(1)
  have a: "?go 1 = Inr (None, [], [])" by blast
  from ReplicateData_replication_factor_checks
         [of "twoNodes 3" "[selfID, ''node-1'']" "[''node-1'', selfID]" "\<lambda>k url. NetError"
             "[117, 115, 101, 114]" "''v''"] r(2) n3
  have b: "?go 3 = Inr (Some (NotEnoughActiveNodes 3), [], [])"
    by (simp add: r(3))
  from ReplicateData_replication_factor_checks
         [of "twoNodes 2" "[selfID, ''node-1'']" "[''node-1'', selfID]" "\<lambda>k url. NetError"
             "[117, 115, 101, 114]" "''v''"] r(4) n2
  have c: "\<forall>e calls logged. ?go 2 \<noteq> Inr (Some e, calls, logged)"
    by blast
  from a b c show ?thesis by simp
qed

subsection \<open>Replication past the checks\<close>


lemma GetPartitionForKey_some:
  assumes "0 < length (GetActiveNodes ord c)"
  shows "\<exists>primary \<in> set (GetActiveNodes ord c). GetPartitionForKey ord c key = Inr (Some primary)"
proof -
  let ?xs = "GetActiveNodes ord c"
  let ?i = "partitionIndex key (length ?xs)"
  from partitionIndex_range [OF assms, of key]
  have r: "0 \<le> ?i" "?i < int (length ?xs)" by simp_all
  then have "nat ?i < length ?xs" by linarith
  then have "?xs ! nat ?i \<in> set ?xs" by (rule nth_mem)
  moreover have "GetPartitionForKey ord c key = Inr (Some (?xs ! nat ?i))"
    using assms r by (simp add: GetPartitionForKey_def sliceIndex_def Let_def)
  ultimately show ?thesis by blast
qed

lemma ReplicateData_pushes:
  assumes "1 < ReplicationFactor (config c)"
    and "ReplicationFactor (config c) \<le> int (length (GetActiveNodes ord1 c))"
    and "rangeOrder (nodes c) ord1" and "rangeOrder (nodes c) ord2"
  shows "\<exists>primary logged.
           GetPartitionForKey ord2 c key = Inr (Some primary)
           \<and> ReplicateData ord1 ord2 net c key val =
               Inr (None,
                    map (\<lambda>n. (endpoint n ''/data/replicate'', key, val))
                      (filter (\<lambda>n. ID n \<noteq> ID (selfNode c))
                         (replicaLoop 1 (ReplicationFactor (config c)) (GetActiveNodes ord1 c)
                            primary [primary])),
                    logged)
           \<and> length logged \<le> length (filter (\<lambda>n. ID n \<noteq> ID (selfNode c))
                         (replicaLoop 1 (ReplicationFactor (config c)) (GetActiveNodes ord1 c)
                            primary [primary]))
           \<and> ((\<forall>k n. replicateToNode (net k) n \<noteq> None) \<longrightarrow>
                length logged = length (filter (\<lambda>n. ID n \<noteq> ID (selfNode c))
                         (replicaLoop 1 (ReplicationFactor (config c)) (GetActiveNodes ord1 c)
                            primary [primary])))"
proof -
  let ?R = "ReplicationFactor (config c)"
  have "0 < length (GetActiveNodes ord1 c)"
    using assms(1,2) by linarith
  then have "0 < length (GetActiveNodes ord2 c)"
    using GetActiveNodes_length_order [OF assms(3,4)] by simp
  from GetPartitionForKey_some [OF this, of key] obtain primary where
    p: "GetPartitionForKey ord2 c key = Inr (Some primary)" by blast
  let ?sel = "replicaLoop 1 ?R (GetActiveNodes ord1 c) primary [primary]"
  let ?out = "pushLoop net (ID (selfNode c)) key val ?sel ([], [])"
  have rd: "ReplicateData ord1 ord2 net c key val = Inr (None, fst ?out, snd ?out)"
    using ReplicateData_unfold [OF assms(1,2) p, of net val] by simp
  have calls: "fst ?out = map (\<lambda>n. (endpoint n ''/data/replicate'', key, val))
                            (filter (\<lambda>n. ID n \<noteq> ID (selfNode c)) ?sel)"
    using pushLoop_calls [of net "ID (selfNode c)" key val ?sel "[]" "[]"] by simp
  have le: "length (snd ?out) \<le> length (filter (\<lambda>n. ID n \<noteq> ID (selfNode c)) ?sel)"
    using pushLoop_logged_length [of net "ID (selfNode c)" key val ?sel "[]" "[]"] by simp
  have eq: "(\<forall>k n. replicateToNode (net k) n \<noteq> None) \<longrightarrow>
        length (snd ?out) = length (filter (\<lambda>n. ID n \<noteq> ID (selfNode c)) ?sel)"
    using pushLoop_all_fail [of net "ID (selfNode c)" key val ?sel "[]" "[]"] by simp
  from p rd calls le eq show ?thesis by metis
qed

lemma filter_other_ids_length:
  assumes "distinct (map f xs)" and "y \<in> f ` set xs"
  shows "Suc (length (filter (\<lambda>x. f x \<noteq> y) xs)) = length xs"
  using assms
proof (induction xs)
  case Nil
  then show ?case by simp
next
  case (Cons x xs)
  show ?case
  proof (cases "f x = y")
    case True
    from Cons.prems(1) have "f x \<notin> f ` set xs" by simp
    with True have "\<forall>z \<in> set xs. f z \<noteq> y" by blast
    then have "filter (\<lambda>x. f x \<noteq> y) xs = xs" by simp
    with True show ?thesis by simp
  next
    case False
    with Cons.prems have "distinct (map f xs)" "y \<in> f ` set xs" by auto
    from Cons.IH [OF this] False show ?thesis by simp
  qed
qed

lemma ring_of_three:
  assumes "distinct [a0, a1, a2]" and "p < 3"
  shows "distinct [[a0, a1, a2] ! p, [a0, a1, a2] ! ((p + 1) mod 3), [a0, a1, a2] ! ((p + 2) mod 3)]
         \<and> set [[a0, a1, a2] ! p, [a0, a1, a2] ! ((p + 1) mod 3), [a0, a1, a2] ! ((p + 2) mod 3)]
             = {a0, a1, a2}"
proof -
  from assms(2) consider "p = 0" | "p = 1" | "p = 2" by linarith
  then show ?thesis
    using assms(1) by cases auto
qed

lemma threeNodes_orders:
  "rangeOrder (nodes (threeNodes R)) [selfID, ''node-1'', ''node-2'']"
  "rangeOrder (nodes (threeNodes R)) [''node-2'', selfID, ''node-1'']"
  by (auto simp: rangeOrder_def sample_defs)

lemma threeNodes_snapshot:
  "GetActiveNodes [selfID, ''node-1'', ''node-2''] (threeNodes R) =
     [selfNode (threeNodes R), peerA\<lparr>LastSeen := 1700000050\<rparr>, peerB\<lparr>LastSeen := 1700000060\<rparr>]"
  "GetActiveNodes [''node-2'', selfID, ''node-1''] (threeNodes R) =
     [peerB\<lparr>LastSeen := 1700000060\<rparr>, selfNode (threeNodes R), peerA\<lparr>LastSeen := 1700000050\<rparr>]"
  by (simp_all add: sample_defs snapshot_defs)

lemma upt_1_3: "[Suc 0..<3] = [1, 2]"
  by (simp add: numeral_3_eq_3 upt_conv_Cons numeral_2_eq_2)

lemma user42_index: "partitionIndex [117, 115, 101, 114, 58, 52, 50] 3 = 1"
  by (simp add: partitionIndex_def keyHash_def hashStep_def smod_int_alt_def)

lemma threeNodes_wellFormed: "wellFormed (threeNodes R)"
  by (auto simp: wellFormed_def sample_defs split: if_splits)

lemma foo_index: "partitionIndex [102, 111, 111] 3 = 0"
  by (simp add: partitionIndex_def keyHash_def hashStep_def smod_int_alt_def)

text \<open>
  C7. Once the replication factor exceeds 1 and the snapshot holds at least that many
  nodes, \<open>ReplicateData\<close> returns success whatever the network answers. It sends one
  request to each selected node other than self, the same requests for every network (no
  retry), it only logs the failures (at most one line per request, one per request when
  every push fails), and it returns no cluster state (nothing is rolled back).
\<close>

theorem ReplicateData_ignores_push_failures:
  assumes "1 < ReplicationFactor (config c)"
    and "ReplicationFactor (config c) \<le> int (length (GetActiveNodes ord1 c))"
    and "rangeOrder (nodes c) ord1" and "rangeOrder (nodes c) ord2"
  shows "\<exists>primary logged.
           GetPartitionForKey ord2 c key = Inr (Some primary)
           \<and> ReplicateData ord1 ord2 net c key val =
               Inr (None,
                    map (\<lambda>n. (endpoint n ''/data/replicate'', key, val))
                      (filter (\<lambda>n. ID n \<noteq> ID (selfNode c))
                         (replicaLoop 1 (ReplicationFactor (config c)) (GetActiveNodes ord1 c)
                            primary [primary])),
                    logged)
           \<and> length logged \<le> length (filter (\<lambda>n. ID n \<noteq> ID (selfNode c))
                         (replicaLoop 1 (ReplicationFactor (config c)) (GetActiveNodes ord1 c)
                            primary [primary]))
           \<and> ((\<forall>k n. replicateToNode (net k) n \<noteq> None) \<longrightarrow>
                length logged = length (filter (\<lambda>n. ID n \<noteq> ID (selfNode c))
                         (replicaLoop 1 (ReplicationFactor (config c)) (GetActiveNodes ord1 c)
                            primary [primary])))"
  using assms by (rule ReplicateData_pushes)

theorem ReplicateData_ignores_push_failures_witness:
  "\<exists>logged.
     ReplicateData [selfID, ''node-1'', ''node-2''] [''node-2'', selfID, ''node-1'']
       (\<lambda>k url. NetError) (threeNodes 3) [117, 115, 101, 114, 58, 52, 50] ''v'' =
     Inr (None,
          [(''http://10.0.0.2:9090/data/replicate'', [117, 115, 101, 114, 58, 52, 50], ''v''),
           (''http://10.0.0.3:9090/data/replicate'', [117, 115, 101, 114, 58, 52, 50], ''v'')],
          logged)
     \<and> length logged = 2"
proof -
  let ?c = "threeNodes 3"
  let ?o1 = "[selfID, ''node-1'', ''node-2'']"
  let ?o2 = "[''node-2'', selfID, ''node-1'']"
  let ?key = "[117, 115, 101, 114, 58, 52, 50] :: rune list"
  let ?net = "(\<lambda>k url. NetError) :: nat \<Rightarrow> string \<Rightarrow> response"
  have R: "ReplicationFactor (config ?c) = 3" and self: "ID (selfNode ?c) = selfID"
    by (simp_all add: sample_defs)
  have h1: "1 < ReplicationFactor (config ?c)"
    and h2: "ReplicationFactor (config ?c) \<le> int (length (GetActiveNodes ?o1 ?c))"
    by (simp_all add: R threeNodes_snapshot)
  have prim: "GetPartitionForKey ?o2 ?c ?key = Inr (Some (selfNode ?c))"
    by (simp add: GetPartitionForKey_def threeNodes_snapshot sliceIndex_def
          user42_index [simplified numeral_3_eq_3])
  have fail: "\<forall>k n. replicateToNode (?net k) n \<noteq> None"
    by (simp add: replicateToNode_def)
  have sel: "replicaLoop 1 3 (GetActiveNodes ?o1 ?c) (selfNode ?c) [selfNode ?c] =
      [selfNode ?c, peerA\<lparr>LastSeen := 1700000050\<rparr>, peerB\<lparr>LastSeen := 1700000060\<rparr>]"
    by (simp add: replicaLoop_closed threeNodes_snapshot upt_1_3)
  from ReplicateData_ignores_push_failures
         [OF h1 h2 threeNodes_orders(1) threeNodes_orders(2), of ?key ?net "''v''"] prim fail
  obtain logged where
    "ReplicateData ?o1 ?o2 ?net ?c ?key ''v'' =
       Inr (None,
            map (\<lambda>n. (endpoint n ''/data/replicate'', ?key, ''v''))
              (filter (\<lambda>n. ID n \<noteq> ID (selfNode ?c))
                 (replicaLoop 1 (ReplicationFactor (config ?c)) (GetActiveNodes ?o1 ?c)
                    (selfNode ?c) [selfNode ?c])),
            logged)"
    "length logged = length (filter (\<lambda>n. ID n \<noteq> ID (selfNode ?c))
                 (replicaLoop 1 (ReplicationFactor (config ?c)) (GetActiveNodes ?o1 ?c)
                    (selfNode ?c) [selfNode ?c]))"
    by auto
  then have "ReplicateData ?o1 ?o2 ?net ?c ?key ''v'' =
     Inr (None,
          [(''http://10.0.0.2:9090/data/replicate'', ?key, ''v''),
           (''http://10.0.0.3:9090/data/replicate'', ?key, ''v'')],
          logged)
     \<and> length logged = 2"
    unfolding R sel by (simp add: self endpoint_def peerA_def peerB_def selfID_def)
  then show ?thesis by blast
qed

subsection \<open>Replication factor 3 on three active nodes\<close>

text \<open>
  C6. With replication factor 3 and a snapshot of exactly three active nodes, for every
  key the replica set is the primary given by \<open>GetPartitionForKey\<close> followed by the
  nodes at the next two positions of the snapshot modulo 3; these are all three nodes of
  the snapshot, each once. A push is attempted to exactly the selected nodes other than
  self, one request each: two requests when self is one of the active nodes.
\<close>

theorem ReplicateData_three_of_three:
  assumes wf: "wellFormed c"
    and o1: "rangeOrder (nodes c) ord1" and o2: "rangeOrder (nodes c) ord2"
    and R: "ReplicationFactor (config c) = 3"
    and len: "length (GetActiveNodes ord1 c) = 3"
  shows "\<exists>primary p logged.
      GetPartitionForKey ord2 c key = Inr (Some primary)
    \<and> p < 3 \<and> GetActiveNodes ord1 c ! p = primary
    \<and> (let activeNodes = GetActiveNodes ord1 c;
            selected = [primary, activeNodes ! ((p + 1) mod 3), activeNodes ! ((p + 2) mod 3)];
            targets = filter (\<lambda>n. ID n \<noteq> ID (selfNode c)) selected
        in replicaLoop 1 3 activeNodes primary [primary] = selected
         \<and> distinct selected \<and> set selected = set activeNodes
         \<and> ReplicateData ord1 ord2 net c key val =
             Inr (None, map (\<lambda>n. (endpoint n ''/data/replicate'', key, val)) targets, logged)
         \<and> ((\<exists>n. nodes c (ID (selfNode c)) = Some n \<and> Status n = ''active'')
              \<longrightarrow> length targets = 2))"
proof -
  let ?an = "GetActiveNodes ord1 c"
  let ?self = "ID (selfNode c)"
  have h1: "1 < ReplicationFactor (config c)"
    and h2: "ReplicationFactor (config c) \<le> int (length ?an)"
    using R len by simp_all
  from ReplicateData_pushes [OF h1 h2 o1 o2, of key net val]
  obtain primary logged where
    prim: "GetPartitionForKey ord2 c key = Inr (Some primary)" and
    rd: "ReplicateData ord1 ord2 net c key val =
           Inr (None,
                map (\<lambda>n. (endpoint n ''/data/replicate'', key, val))
                  (filter (\<lambda>n. ID n \<noteq> ?self) (replicaLoop 1 3 ?an primary [primary])),
                logged)"
    unfolding R by blast
  have "0 < length (GetActiveNodes ord2 c)"
    using GetActiveNodes_length_order [OF o1 o2] len by simp
  from GetPartitionForKey_some [OF this, of key] prim
  have "primary \<in> set (GetActiveNodes ord2 c)" by auto
  then have pin: "primary \<in> set ?an"
    using GetActiveNodes_set_order [OF o1 o2] by simp
  have dids: "distinct (map ID ?an)"
    by (rule GetActiveNodes_distinct_ids [OF wf o1])
  then have inj: "inj_on ID (set ?an)" and d: "distinct ?an"
    by (simp_all add: distinct_map)
  from pin have "ID primary \<in> ID ` set ?an" by simp
  from findPrimaryIdx_found [OF this, of 0] obtain p where
    p: "p < length ?an" "findPrimaryIdx ?an (ID primary) 0 = p" "ID (?an ! p) = ID primary"
    by auto
  have at: "?an ! p = primary"
    using inj p(1,3) pin by (meson inj_onD nth_mem)
  let ?sel = "[primary, ?an ! ((p + 1) mod 3), ?an ! ((p + 2) mod 3)]"
  have sel: "replicaLoop 1 3 ?an primary [primary] = ?sel"
    by (simp add: replicaLoop_closed len p(2) upt_1_3)
  from len obtain a0 a1 a2 where an: "?an = [a0, a1, a2]"
    by (auto simp: length_Suc_conv numeral_3_eq_3)
  from ring_of_three [of a0 a1 a2 p] d p(1) len an at
  have ring: "distinct ?sel" "set ?sel = set ?an"
    by simp_all
  have two: "length (filter (\<lambda>n. ID n \<noteq> ?self) ?sel) = 2"
    if act: "\<exists>n. nodes c ?self = Some n \<and> Status n = ''active''"
  proof -
    from act obtain n where n: "nodes c ?self = Some n" "Status n = ''active''" by blast
    then have "n \<in> set ?an"
      using GetActiveNodes_set [OF o1] by blast
    moreover have "ID n = ?self"
      using wf n(1) by (simp add: wellFormed_def)
    ultimately have mem: "?self \<in> ID ` set ?sel"
      using ring(2) by (metis image_eqI)
    have "inj_on ID (set ?sel)"
      using inj ring(2) by simp
    with ring(1) have "distinct (map ID ?sel)"
      unfolding distinct_map by (rule conjI)
    from filter_other_ids_length [OF this mem] show ?thesis by simp
  qed
  show ?thesis
    unfolding Let_def
  proof (rule exI [of _ primary], rule exI [of _ p], rule exI [of _ logged], intro conjI)
    show "GetPartitionForKey ord2 c key = Inr (Some primary)" by (rule prim)
    show "p < 3" using p(1) len by simp
    show "?an ! p = primary" by (rule at)
    show "replicaLoop 1 3 ?an primary [primary] = ?sel" by (rule sel)
    show "distinct ?sel" by (rule ring(1))
    show "set ?sel = set ?an" by (rule ring(2))
    show "ReplicateData ord1 ord2 net c key val =
            Inr (None,
                 map (\<lambda>n. (endpoint n ''/data/replicate'', key, val))
                   (filter (\<lambda>n. ID n \<noteq> ?self) ?sel),
                 logged)"
      using rd unfolding sel .
    show "(\<exists>n. nodes c ?self = Some n \<and> Status n = ''active'')
            \<longrightarrow> length (filter (\<lambda>n. ID n \<noteq> ?self) ?sel) = 2"
      using two by blast
  qed
qed


theorem ReplicateData_three_of_three_witness:
  "\<exists>logged.
     ReplicateData [selfID, ''node-1'', ''node-2''] [''node-1'', ''node-2'', selfID]
       (\<lambda>k url. Http 200 []) (threeNodes 3) [102, 111, 111] ''bar'' =
     Inr (None,
          [(''http://10.0.0.2:9090/data/replicate'', [102, 111, 111], ''bar''),
           (''http://10.0.0.3:9090/data/replicate'', [102, 111, 111], ''bar'')],
          logged)"
proof -
  let ?c = "threeNodes 3"
  let ?o1 = "[selfID, ''node-1'', ''node-2'']"
  let ?o2 = "[''node-1'', ''node-2'', selfID]"
  let ?key = "[102, 111, 111] :: rune list"
  let ?net = "(\<lambda>k url. Http 200 []) :: nat \<Rightarrow> string \<Rightarrow> response"
  let ?A = "peerA\<lparr>LastSeen := 1700000050\<rparr>"
  let ?B = "peerB\<lparr>LastSeen := 1700000060\<rparr>"
  have R: "ReplicationFactor (config ?c) = 3" and self: "ID (selfNode ?c) = selfID"
    by (simp_all add: sample_defs)
  have o2: "rangeOrder (nodes ?c) ?o2"
    by (auto simp: rangeOrder_def sample_defs)
  have s2: "GetActiveNodes ?o2 ?c = [?A, ?B, selfNode ?c]"
    by (simp add: sample_defs snapshot_defs)
  have len: "length (GetActiveNodes ?o1 ?c) = 3"
    by (simp add: threeNodes_snapshot)
  have prim: "GetPartitionForKey ?o2 ?c ?key = Inr (Some ?A)"
    by (simp add: GetPartitionForKey_def s2 sliceIndex_def foo_index [simplified numeral_3_eq_3])
  have sel: "replicaLoop 1 3 (GetActiveNodes ?o1 ?c) ?A [?A] = [?A, ?B, selfNode ?c]"
    unfolding replicaLoop_closed threeNodes_snapshot
    by (simp add: upt_1_3 self peerA_def peerB_def selfID_def)
  from ReplicateData_three_of_three
         [OF threeNodes_wellFormed threeNodes_orders(1) o2 R len, of ?key ?net "''bar''"]
  obtain primary p logged where
    1: "GetPartitionForKey ?o2 ?c ?key = Inr (Some primary)" and
    2: "replicaLoop 1 3 (GetActiveNodes ?o1 ?c) primary [primary] =
          [primary, GetActiveNodes ?o1 ?c ! ((p + 1) mod 3), GetActiveNodes ?o1 ?c ! ((p + 2) mod 3)]" and
    3: "ReplicateData ?o1 ?o2 ?net ?c ?key ''bar'' =
          Inr (None,
               map (\<lambda>n. (endpoint n ''/data/replicate'', ?key, ''bar''))
                 (filter (\<lambda>n. ID n \<noteq> ID (selfNode ?c))
                    [primary, GetActiveNodes ?o1 ?c ! ((p + 1) mod 3),
                     GetActiveNodes ?o1 ?c ! ((p + 2) mod 3)]),
               logged)"
    unfolding Let_def by blast
  from 1 prim have "primary = ?A" by simp
  with 2 3 sel have "ReplicateData ?o1 ?o2 ?net ?c ?key ''bar'' =
          Inr (None,
               map (\<lambda>n. (endpoint n ''/data/replicate'', ?key, ''bar''))
                 (filter (\<lambda>n. ID n \<noteq> ID (selfNode ?c)) [?A, ?B, selfNode ?c]),
               logged)"
    by simp
  then have "ReplicateData ?o1 ?o2 ?net ?c ?key ''bar'' =
     Inr (None,
          [(''http://10.0.0.2:9090/data/replicate'', ?key, ''bar''),
           (''http://10.0.0.3:9090/data/replicate'', ?key, ''bar'')],
          logged)"
    by (simp add: self endpoint_def peerA_def peerB_def selfID_def)
  then show ?thesis by blast
qed

subsection \<open>The order of the active-node snapshot\<close>

text \<open>
  C1. The specification asks for a snapshot in a fixed order, sorted by node id, so that
  two calls of \<open>GetPartitionForKey\<close> on the same registry return the same node. The code
  appends in the order of the map iteration. On the registry holding self and
  \<open>node-1\<close>, both active, the two orders the runtime can pick give two different
  snapshots, the first of them not sorted by id, and the key \<open>a\<close> is owned by
  \<open>node-1\<close> under one and by self under the other.
\<close>

theorem GetActiveNodes_order_follows_iteration:
  "rangeOrder (nodes (twoNodes 1)) [selfID, ''node-1'']
   \<and> rangeOrder (nodes (twoNodes 1)) [''node-1'', selfID]
   \<and> GetActiveNodes [selfID, ''node-1''] (twoNodes 1) =
       [selfNode (twoNodes 1), peerA\<lparr>LastSeen := 1700000050\<rparr>]
   \<and> GetActiveNodes [''node-1'', selfID] (twoNodes 1) =
       [peerA\<lparr>LastSeen := 1700000050\<rparr>, selfNode (twoNodes 1)]
   \<and> \<not> sorted (map ID (GetActiveNodes [selfID, ''node-1''] (twoNodes 1)))
   \<and> GetPartitionForKey [selfID, ''node-1''] (twoNodes 1) [97] =
       Inr (Some (peerA\<lparr>LastSeen := 1700000050\<rparr>))
   \<and> GetPartitionForKey [''node-1'', selfID] (twoNodes 1) [97] =
       Inr (Some (selfNode (twoNodes 1)))
   \<and> peerA\<lparr>LastSeen := 1700000050\<rparr> \<noteq> selfNode (twoNodes 1)"
proof -
  have o: "rangeOrder (nodes (twoNodes 1)) [selfID, ''node-1'']"
    "rangeOrder (nodes (twoNodes 1)) [''node-1'', selfID]"
    by (auto simp: rangeOrder_def sample_defs)
  have s1: "GetActiveNodes [selfID, ''node-1''] (twoNodes 1) =
       [selfNode (twoNodes 1), peerA\<lparr>LastSeen := 1700000050\<rparr>]"
    and s2: "GetActiveNodes [''node-1'', selfID] (twoNodes 1) =
       [peerA\<lparr>LastSeen := 1700000050\<rparr>, selfNode (twoNodes 1)]"
    by (simp_all add: sample_defs snapshot_defs)
  have i: "partitionIndex [97] (Suc (Suc 0)) = 1"
    by (simp add: partitionIndex_def keyHash_def hashStep_def smod_int_alt_def)
  have u: "\<not> sorted (map ID (GetActiveNodes [selfID, ''node-1''] (twoNodes 1)))"
    by (simp add: sample_defs snapshot_defs)
  have p1: "GetPartitionForKey [selfID, ''node-1''] (twoNodes 1) [97] =
       Inr (Some (peerA\<lparr>LastSeen := 1700000050\<rparr>))"
    and p2: "GetPartitionForKey [''node-1'', selfID] (twoNodes 1) [97] =
       Inr (Some (selfNode (twoNodes 1)))"
    by (simp_all add: GetPartitionForKey_def s1 s2 sliceIndex_def i)
  have d: "peerA\<lparr>LastSeen := 1700000050\<rparr> \<noteq> selfNode (twoNodes 1)"
    by (simp add: sample_defs)
  from o s1 s2 u p1 p2 d show ?thesis by simp
qed

text \<open>
  What does hold: for a fixed registry the snapshots of any two iterations are
  permutations of each other (\<open>GetActiveNodes_mset_order\<close>), and they hold exactly the
  active records (\<open>GetActiveNodes_set\<close>).
\<close>

subsection \<open>Gossip replies\<close>

lemma exchangeGossip_registry: "fst (exchangeGossip ord post c node) = c"
  by (simp add: exchangeGossip_def Let_def split: response.splits)

text \<open>
  C2. The specification asks that a received membership list be merged into the
  registry, the record with the greater \<open>last_seen\<close> winning. In the code, with
  \<open>node-1\<close> at \<open>last_seen = 50\<close> locally and a peer answering 200 with \<open>node-1\<close> at
  \<open>last_seen = 100\<close>, \<open>exchangeGossip\<close> returns the cluster as it was, with \<open>node-1\<close> still
  at 50; and a \<open>POST /cluster/gossip\<close> sent to this process reaches \<open>notFoundHandler\<close>.
\<close>

theorem exchangeGossip_discards_membership:
  "nodes (AddNode peerA 50 (NewCluster (cfg 1) selfID)) ''node-1'' = Some (peerA\<lparr>LastSeen := 50\<rparr>)
   \<and> exchangeGossip [selfID, ''node-1''] (\<lambda>url body. Http 200 [peerA\<lparr>LastSeen := 100\<rparr>])
        (AddNode peerA 50 (NewCluster (cfg 1) selfID)) peerB
      = (AddNode peerA 50 (NewCluster (cfg 1) selfID), [])
   \<and> matchRoute clusterRoutes ''POST'' ''/cluster/gossip'' = notFoundHandler"
  by (simp add: exchangeGossip_def clusterRoutes_def AddNode_def Let_def peerA_def)

subsection \<open>The self record\<close>

lemma updateNodeStatus_selfNode [simp]: "selfNode (updateNodeStatus nodeID alive now c) = selfNode c"
  by (simp add: updateNodeStatus_def split: option.splits)

lemma updateNodeStatus_other:
  "k \<noteq> nodeID \<Longrightarrow> nodes (updateNodeStatus nodeID alive now c) k = nodes c k"
  by (simp add: updateNodeStatus_def split: option.splits)

lemma RemoveNode_selfNode [simp]: "selfNode (RemoveNode nodeID c) = selfNode c"
  by (simp add: RemoveNode_def split: option.splits)

lemma RemoveNode_other:
  "k \<noteq> nodeID \<Longrightarrow> nodes (RemoveNode nodeID c) k = nodes c k"
  by (simp add: RemoveNode_def split: option.splits)

lemma AddNode_selfNode [simp]: "selfNode (AddNode node now c) = selfNode c"
  by (simp add: AddNode_def Let_def)

lemma AddNode_other:
  "k \<noteq> ID node \<Longrightarrow> nodes (AddNode node now c) k = nodes c k"
  by (simp add: AddNode_def Let_def)

lemma heartbeatLoop_self:
  "ID (selfNode c) \<notin> set probed \<Longrightarrow>
   selfNode (fst (heartbeatLoop net clock ns (c, probed))) = selfNode c
   \<and> nodes (fst (heartbeatLoop net clock ns (c, probed))) (ID (selfNode c)) = nodes c (ID (selfNode c))
   \<and> ID (selfNode c) \<notin> set (snd (heartbeatLoop net clock ns (c, probed)))"
proof (induction ns arbitrary: c probed)
  case Nil
  then show ?case by simp
next
  case (Cons n ns)
  show ?case
  proof (cases "ID n = ID (selfNode c)")
    case True
    then show ?thesis using Cons.IH [OF Cons.prems] by simp
  next
    case False
    let ?c' = "updateNodeStatus (ID n) (pingNode (net (length probed)) n) (clock (length probed)) c"
    have "ID (selfNode ?c') \<notin> set (probed @ [ID n])"
      using False Cons.prems by simp
    from Cons.IH [OF this, of ] False show ?thesis
      by (simp add: Let_def updateNodeStatus_other)
  qed
qed

lemma performHeartbeat_self:
  "selfNode (fst (performHeartbeat ord net clock c)) = selfNode c
   \<and> nodes (fst (performHeartbeat ord net clock c)) (ID (selfNode c)) = nodes c (ID (selfNode c))
   \<and> ID (selfNode c) \<notin> set (snd (performHeartbeat ord net clock c))"
  unfolding performHeartbeat_def by (rule heartbeatLoop_self) simp

lemma applyStep_self:
  assumes "sparesNode (ID (selfNode c)) s"
  shows "selfNode (applyStep s c) = selfNode c
         \<and> nodes (applyStep s c) (ID (selfNode c)) = nodes c (ID (selfNode c))"
  using assms
  by (cases s) (simp_all add: AddNode_other RemoveNode_other updateNodeStatus_other performHeartbeat_self)

lemma run_self:
  assumes "\<forall>s \<in> set steps. sparesNode (ID (selfNode c)) s"
  shows "selfNode (run steps c) = selfNode c
         \<and> nodes (run steps c) (ID (selfNode c)) = nodes c (ID (selfNode c))"
  using assms
proof (induction steps arbitrary: c)
  case Nil
  then show ?case by simp
next
  case (Cons s steps)
  from Cons.prems have s: "sparesNode (ID (selfNode c)) s" by simp
  note a = applyStep_self [OF s]
  from Cons.prems a have "\<forall>t \<in> set steps. sparesNode (ID (selfNode (applyStep s c))) t"
    by simp
  from Cons.IH [OF this] a show ?case by simp
qed

text \<open>
  C4, as amended. In every state reached from \<open>NewCluster\<close> by heartbeat rounds and by
  calls of \<open>AddNode\<close>, \<open>RemoveNode\<close> and \<open>updateNodeStatus\<close> on node ids other than
  self's, the self record is present with status active, as \<open>NewCluster\<close> stored it. A
  heartbeat round, from any state, never probes self and leaves the self record as it
  was.
\<close>

theorem self_stays_active:
  "((\<forall>s \<in> set steps. sparesNode nid s) \<longrightarrow>
      selfActive (run steps (NewCluster cfgv nid))
      \<and> nodes (run steps (NewCluster cfgv nid)) nid = nodes (NewCluster cfgv nid) nid)
   \<and> ID (selfNode c) \<notin> set (snd (performHeartbeat ord net clock c))
   \<and> nodes (fst (performHeartbeat ord net clock c)) (ID (selfNode c)) = nodes c (ID (selfNode c))"
proof (intro conjI impI)
  assume a: "\<forall>s \<in> set steps. sparesNode nid s"
  have i: "ID (selfNode (NewCluster cfgv nid)) = nid"
    by (simp add: NewCluster_def Let_def)
  from a i have "\<forall>s \<in> set steps. sparesNode (ID (selfNode (NewCluster cfgv nid))) s"
    by simp
  from run_self [OF this]
  have r: "selfNode (run steps (NewCluster cfgv nid)) = selfNode (NewCluster cfgv nid)"
    "nodes (run steps (NewCluster cfgv nid)) nid = nodes (NewCluster cfgv nid) nid"
    using i by simp_all
  show "nodes (run steps (NewCluster cfgv nid)) nid = nodes (NewCluster cfgv nid) nid"
    by (rule r(2))
  show "selfActive (run steps (NewCluster cfgv nid))"
    unfolding selfActive_def r(1) i r(2) by (simp add: NewCluster_def Let_def)
next
  show "ID (selfNode c) \<notin> set (snd (performHeartbeat ord net clock c))"
    by (simp add: performHeartbeat_self)
  show "nodes (fst (performHeartbeat ord net clock c)) (ID (selfNode c)) = nodes c (ID (selfNode c))"
    by (simp add: performHeartbeat_self)
qed

theorem self_stays_active_witness:
  "selfActive (run [CallAddNode peerA 1700000050,
                    HeartbeatRound [selfID, ''node-1''] (\<lambda>k url. NetError) (\<lambda>k. 1700000055),
                    CallRemoveNode ''node-1'',
                    CallUpdateNodeStatus ''node-1'' True 1700000060]
                 (NewCluster (cfg 1) selfID))
   \<and> selfID \<notin> set (snd (performHeartbeat [selfID, ''node-1''] (\<lambda>k url. NetError)
                          (\<lambda>k. 1700000055) (twoNodes 1)))
   \<and> nodes (fst (performHeartbeat [selfID, ''node-1''] (\<lambda>k url. NetError)
                          (\<lambda>k. 1700000055) (twoNodes 1))) selfID = nodes (twoNodes 1) selfID"
proof -
  let ?steps = "[CallAddNode peerA 1700000050,
                 HeartbeatRound [selfID, ''node-1''] (\<lambda>k url. NetError) (\<lambda>k. 1700000055),
                 CallRemoveNode ''node-1'',
                 CallUpdateNodeStatus ''node-1'' True 1700000060]"
  have h: "\<forall>s \<in> set ?steps. sparesNode selfID s"
    by (simp add: peerA_def selfID_def)
  have i: "ID (selfNode (twoNodes 1)) = selfID"
    by (simp add: sample_defs)
  from self_stays_active [of ?steps selfID "cfg 1" "twoNodes 1" "[selfID, ''node-1'']"
         "\<lambda>k url. NetError" "\<lambda>k. 1700000055"] h
  show ?thesis unfolding i by blast
qed

text \<open>
  C4 as stated fails: \<open>RemoveNode\<close> guards only against an unknown id, and called with
  self's id it sets the self record to inactive.
\<close>

theorem RemoveNode_self_counterexample:
  "selfActive (NewCluster (cfg 1) selfID)
   \<and> \<not> selfActive (RemoveNode selfID (NewCluster (cfg 1) selfID))"
  by (simp add: selfActive_def NewCluster_def RemoveNode_def Let_def)

subsection \<open>Who writes \<open>last_seen\<close>\<close>

text \<open>
  C8, as amended. \<open>updateNodeStatus\<close> changes the \<open>last_seen\<close> of a record only when it
  is called with \<open>alive\<close> on that record's id, and then it sets the status to active and
  \<open>last_seen\<close> to the current time. \<open>RemoveNode\<close> never changes a \<open>last_seen\<close>.
  \<open>AddNode\<close> stores the node it is given under its id with \<open>last_seen\<close> set to the
  current time and every other field, the status included, as given; it leaves all
  other records alone.
\<close>

theorem last_seen_writers:
  "(nodes c k = Some n \<and> nodes (updateNodeStatus nodeID alive now c) k = Some n'
      \<and> LastSeen n' \<noteq> LastSeen n
      \<longrightarrow> alive \<and> k = nodeID \<and> Status n' = ''active'' \<and> LastSeen n' = now)
   \<and> (nodes c k = Some n \<and> nodes (RemoveNode nodeID c) k = Some n'
      \<longrightarrow> LastSeen n' = LastSeen n)
   \<and> nodes (AddNode node now c) (ID node) = Some (node\<lparr>LastSeen := now\<rparr>)
   \<and> (k \<noteq> ID node \<longrightarrow> nodes (AddNode node now c) k = nodes c k)"
  by (auto simp: updateNodeStatus_def RemoveNode_def AddNode_def Let_def
        split: if_splits option.splits)

theorem last_seen_writers_witness:
  "nodes (twoNodes 1) ''node-1'' = Some (peerA\<lparr>LastSeen := 1700000050\<rparr>)
   \<and> nodes (updateNodeStatus ''node-1'' True 1700000077 (twoNodes 1)) ''node-1''
       = Some (peerA\<lparr>LastSeen := 1700000077\<rparr>)
   \<and> Status (peerA\<lparr>LastSeen := 1700000077\<rparr>) = ''active''
   \<and> nodes (RemoveNode ''node-1'' (twoNodes 1)) ''node-1''
       = Some (peerA\<lparr>Status := ''inactive'', LastSeen := 1700000050\<rparr>)
   \<and> nodes (AddNode peerB 1700000060 (twoNodes 1)) ''node-2'' = Some (peerB\<lparr>LastSeen := 1700000060\<rparr>)
   \<and> nodes (AddNode peerB 1700000060 (twoNodes 1)) ''node-1'' = nodes (twoNodes 1) ''node-1''"
proof -
  let ?A = "peerA\<lparr>LastSeen := 1700000050\<rparr>"
  let ?A' = "peerA\<lparr>LastSeen := 1700000077\<rparr>"
  let ?A'' = "peerA\<lparr>Status := ''inactive'', LastSeen := 1700000050\<rparr>"
  have a: "nodes (twoNodes 1) ''node-1'' = Some ?A"
    by (simp add: sample_defs)
  have b: "nodes (updateNodeStatus ''node-1'' True 1700000077 (twoNodes 1)) ''node-1'' = Some ?A'"
    by (simp add: updateNodeStatus_def sample_defs)
  have c: "LastSeen ?A' \<noteq> LastSeen ?A"
    by simp
  have d: "nodes (RemoveNode ''node-1'' (twoNodes 1)) ''node-1'' = Some ?A''"
    by (simp add: sample_defs)
  have e: "''node-1'' \<noteq> ID peerB" "ID peerB = ''node-2''"
    by (simp_all add: peerB_def)
  from last_seen_writers [of "twoNodes 1" "''node-1''" ?A "''node-1''" True 1700000077 ?A'] a b c
  have 1: "Status ?A' = ''active''" by blast
  from last_seen_writers [of "twoNodes 1" "''node-1''" ?A "''node-1''" True 1700000077 ?A''] a d
  have 2: "LastSeen ?A'' = LastSeen ?A" by blast
  from last_seen_writers [of "twoNodes 1" "''node-1''" ?A "''node-1''" True 1700000060 ?A' peerB] e
  have 3: "nodes (AddNode peerB 1700000060 (twoNodes 1)) ''node-2'' = Some (peerB\<lparr>LastSeen := 1700000060\<rparr>)"
    "nodes (AddNode peerB 1700000060 (twoNodes 1)) ''node-1'' = nodes (twoNodes 1) ''node-1''"
    by simp_all
  from a b 1 2 d 3 show ?thesis by simp
qed

text \<open>
  C8 as stated fails: \<open>AddNode\<close> stamps \<open>last_seen\<close> whatever the status. Adding the
  inactive record of \<open>node-1\<close> again moves its \<open>last_seen\<close> and leaves it inactive.
\<close>

theorem AddNode_stamps_inactive_counterexample:
  "nodes (RemoveNode ''node-1'' (twoNodes 1)) ''node-1''
     = Some (peerA\<lparr>Status := ''inactive'', LastSeen := 1700000050\<rparr>)
   \<and> nodes (AddNode (peerA\<lparr>Status := ''inactive'', LastSeen := 1700000050\<rparr>) 1700000099
              (RemoveNode ''node-1'' (twoNodes 1))) ''node-1''
     = Some (peerA\<lparr>Status := ''inactive'', LastSeen := 1700000099\<rparr>)
   \<and> (1700000099 :: int64) \<noteq> 1700000050"
  by (simp add: sample_defs)

end
